theory Spec2Isabelle
  imports Complex_Main "HOL-Library.Word" "HOL-Library.Log_Nat"
    "HOL-Library.Product_Lexorder"
begin

section \<open>The LEGO mosaic renderer\<close>

text \<open>
  A shallow embedding of \<^verbatim>\<open>src/lego_app.py\<close>: the palette, the two colour
  matchers, the pixelation loop and the derivation of the grid height. The image
  library (PIL) and the colour library (colormath) are external: their operations are
  modelled by what the program relies on (an RGB image is a size and a store of byte
  triples; resizing and the Lab conversion with its CIE2000 difference are parameters).
\<close>

subsection \<open>Errors\<close>

text \<open>The exceptions a call can end with. An exception is the \<open>Inl\<close> of a sum.\<close>

datatype error = ValueError | IndexError | ZeroDivisionError | OverflowError

subsection \<open>The palette\<close>

text \<open>A colour as Python has it: a tuple of three unbounded integers.\<close>

type_synonym color = "int \<times> int \<times> int"

text \<open>A palette entry is a dict with the two keys \<^verbatim>\<open>name\<close> and \<^verbatim>\<open>rgb\<close>.\<close>

record palette_color =
  name :: string
  rgb :: color

definition LEGO_COLORS :: "palette_color list" where
  "LEGO_COLORS = [
    \<lparr>name = ''Brick Yellow'', rgb = (236, 217, 185)\<rparr>,
    \<lparr>name = ''Nougat'', rgb = (204, 142, 105)\<rparr>,
    \<lparr>name = ''Bright Red'', rgb = (180, 0, 0)\<rparr>,
    \<lparr>name = ''Bright Blue'', rgb = (0, 85, 191)\<rparr>,
    \<lparr>name = ''Bright Yellow'', rgb = (255, 205, 0)\<rparr>,
    \<lparr>name = ''Black'', rgb = (27, 42, 52)\<rparr>,
    \<lparr>name = ''Dark Green'', rgb = (0, 69, 26)\<rparr>,
    \<lparr>name = ''Bright Green'', rgb = (75, 151, 75)\<rparr>,
    \<lparr>name = ''Dark Orange'', rgb = (160, 80, 0)\<rparr>,
    \<lparr>name = ''Medium Blue'', rgb = (73, 138, 199)\<rparr>,
    \<lparr>name = ''Bright Orange'', rgb = (255, 127, 0)\<rparr>,
    \<lparr>name = ''Bright Bluish Green'', rgb = (0, 158, 143)\<rparr>,
    \<lparr>name = ''Bright Yellowish-Green'', rgb = (193, 223, 0)\<rparr>,
    \<lparr>name = ''Bright Reddish Violet'', rgb = (160, 0, 128)\<rparr>,
    \<lparr>name = ''Sand Blue'', rgb = (100, 124, 162)\<rparr>,
    \<lparr>name = ''Sand Yellow'', rgb = (170, 153, 114)\<rparr>,
    \<lparr>name = ''Earth Blue'', rgb = (0, 32, 96)\<rparr>,
    \<lparr>name = ''Earth Green'', rgb = (0, 50, 40)\<rparr>,
    \<lparr>name = ''Sand Green'', rgb = (120, 144, 130)\<rparr>,
    \<lparr>name = ''Dark Red'', rgb = (123, 0, 27)\<rparr>,
    \<lparr>name = ''Flame Yellowish Orange'', rgb = (255, 176, 0)\<rparr>,
    \<lparr>name = ''Reddish Brown'', rgb = (105, 64, 40)\<rparr>,
    \<lparr>name = ''Medium Stone Grey'', rgb = (163, 162, 165)\<rparr>,
    \<lparr>name = ''Dark Stone Grey'', rgb = (99, 95, 98)\<rparr>,
    \<lparr>name = ''Light Stone Grey'', rgb = (229, 228, 223)\<rparr>,
    \<lparr>name = ''Light Royal Blue'', rgb = (180, 210, 228)\<rparr>,
    \<lparr>name = ''Bright Purple'', rgb = (123, 0, 123)\<rparr>,
    \<lparr>name = ''Light Purple'', rgb = (220, 178, 229)\<rparr>,
    \<lparr>name = ''Cool Yellow'', rgb = (255, 236, 108)\<rparr>,
    \<lparr>name = ''Dark Purple'', rgb = (85, 0, 85)\<rparr>,
    \<lparr>name = ''Light Nougat'', rgb = (255, 223, 196)\<rparr>,
    \<lparr>name = ''Dark Brown'', rgb = (62, 32, 10)\<rparr>,
    \<lparr>name = ''Medium Nougat'', rgb = (174, 122, 89)\<rparr>,
    \<lparr>name = ''Dark Azur'', rgb = (32, 108, 137)\<rparr>,
    \<lparr>name = ''Medium Azur'', rgb = (104, 195, 226)\<rparr>,
    \<lparr>name = ''Aqua'', rgb = (175, 232, 225)\<rparr>,
    \<lparr>name = ''Medium Lavender'', rgb = (180, 140, 200)\<rparr>,
    \<lparr>name = ''Lavender'', rgb = (203, 153, 201)\<rparr>,
    \<lparr>name = ''White Glow'', rgb = (247, 247, 247)\<rparr>,
    \<lparr>name = ''Spring Yellowish Green'', rgb = (234, 255, 99)\<rparr>,
    \<lparr>name = ''Olive Green'', rgb = (91, 110, 53)\<rparr>,
    \<lparr>name = ''Medium Yellowish Green'', rgb = (170, 210, 60)\<rparr>,
    \<lparr>name = ''Vibrant Coral'', rgb = (255, 115, 119)\<rparr>,
    \<lparr>name = ''Vibrant Yellow'', rgb = (255, 239, 0)\<rparr>
  ]"

subsection \<open>Python floats\<close>

text \<open>
  A Python float is an IEEE binary64 value: a finite number (a rational), one of the two
  infinities, or NaN. Comparison with \<^verbatim>\<open><\<close> is the order of the numbers, and is false
  as soon as one side is NaN.
\<close>

datatype pyfloat = Fin rat | PosInf | NegInf | NaN

fun flt_lt :: "pyfloat \<Rightarrow> pyfloat \<Rightarrow> bool" where
  "flt_lt NaN _ = False"
| "flt_lt _ NaN = False"
| "flt_lt _ NegInf = False"
| "flt_lt NegInf _ = True"
| "flt_lt PosInf _ = False"
| "flt_lt (Fin a) PosInf = True"
| "flt_lt (Fin a) (Fin b) = (a < b)"

text \<open>\<open>a \<le> b\<close> on floats that are numbers (not NaN).\<close>

definition flt_le :: "pyfloat \<Rightarrow> pyfloat \<Rightarrow> bool" where
  "flt_le a b = (a \<noteq> NaN \<and> b \<noteq> NaN \<and> \<not> flt_lt b a)"

subsection \<open>The fast matcher\<close>

text \<open>
  \<^verbatim>\<open>sum((a - b) ** 2 for a, b in zip(c1, c2))\<close> on two triples, in Python's unbounded
  integers.
\<close>

fun distance :: "color \<Rightarrow> color \<Rightarrow> int" where
  "distance (r1, g1, b1) (r2, g2, b2) = (r1 - r2)\<^sup>2 + (g1 - g2)\<^sup>2 + (b1 - b2)\<^sup>2"

text \<open>
  Python's \<^verbatim>\<open>min(iterable, key=f)\<close>: it raises ValueError on an empty iterable, and
  otherwise keeps the first item, replacing it only by an item whose key is strictly
  smaller.
\<close>

definition py_min :: "('a \<Rightarrow> int) \<Rightarrow> 'a list \<Rightarrow> error + 'a" where
  "py_min key xs =
     (case xs of
        [] \<Rightarrow> Inl ValueError
      | x # rest \<Rightarrow> Inr (fold (\<lambda>c best. if key c < key best then c else best) rest x))"

definition closest_lego_color :: "color \<Rightarrow> error + color" where
  "closest_lego_color pixel_rgb =
     (case py_min (\<lambda>c. distance pixel_rgb (rgb c)) LEGO_COLORS of
        Inl e \<Rightarrow> Inl e
      | Inr c \<Rightarrow> Inr (rgb c))"

subsection \<open>The accurate matcher\<close>

text \<open>
  \<^verbatim>\<open>rgb_to_lab\<close> (colormath's conversion of an sRGB colour to Lab) and
  \<^verbatim>\<open>delta_e_cie2000\<close> are floating-point code of an external library: the matcher
  takes them as the parameters \<open>rgb_to_lab\<close> and \<open>delta_e\<close>. The loop starts from
  the first palette entry and from \<^verbatim>\<open>float('inf')\<close>, and replaces both when an
  entry's difference is strictly smaller.
\<close>

definition lab_step ::
  "('l \<Rightarrow> 'l \<Rightarrow> pyfloat) \<Rightarrow> (color \<Rightarrow> 'l) \<Rightarrow> 'l \<Rightarrow> palette_color \<Rightarrow>
     pyfloat \<times> palette_color \<Rightarrow> pyfloat \<times> palette_color" where
  "lab_step delta_e rgb_to_lab target color st =
     (let lego_lab = rgb_to_lab (rgb color);
          delta = delta_e target lego_lab
      in if flt_lt delta (fst st) then (delta, color) else st)"

definition closest_lego_color_lab ::
  "(color \<Rightarrow> 'l) \<Rightarrow> ('l \<Rightarrow> 'l \<Rightarrow> pyfloat) \<Rightarrow> color \<Rightarrow> color" where
  "closest_lego_color_lab rgb_to_lab delta_e pixel_rgb =
     (let target = rgb_to_lab pixel_rgb;
          closest = LEGO_COLORS ! 0;
          min_dist = PosInf
      in rgb (snd (fold (lab_step delta_e rgb_to_lab target) LEGO_COLORS (min_dist, closest))))"

subsection \<open>Images\<close>

text \<open>
  An RGB image of the image library: its size and a store of byte triples, addressed by
  \<open>(x, y)\<close>. Only the addresses inside the size belong to the image.
\<close>

type_synonym pixel = "8 word \<times> 8 word \<times> 8 word"

record image =
  width :: int
  height :: int
  pixels :: "int \<times> int \<Rightarrow> pixel"

text \<open>
  \<^verbatim>\<open>Image.new("RGB", size)\<close>: a black image; a negative width or height raises
  ValueError, a zero one is allowed.
\<close>

definition image_new :: "int \<times> int \<Rightarrow> error + image" where
  "image_new sz =
     (if fst sz < 0 \<or> snd sz < 0 then Inl ValueError
      else Inr \<lparr>width = fst sz, height = snd sz, pixels = (\<lambda>_. (0, 0, 0))\<rparr>)"

text \<open>
  Pixel access: a negative coordinate counts from the far edge, and a coordinate that is
  still outside the image raises IndexError.
\<close>

definition locate :: "image \<Rightarrow> int \<times> int \<Rightarrow> error + int \<times> int" where
  "locate img xy =
     (let x = (if fst xy < 0 then width img + fst xy else fst xy);
          y = (if snd xy < 0 then height img + snd xy else snd xy)
      in if x < 0 \<or> width img \<le> x \<or> y < 0 \<or> height img \<le> y then Inl IndexError
         else Inr (x, y))"

text \<open>\<^verbatim>\<open>getpixel\<close> returns the three bytes as a tuple of Python integers.\<close>

fun to_color :: "pixel \<Rightarrow> color" where
  "to_color (r, g, b) = (uint r, uint g, uint b)"

definition getpixel :: "image \<Rightarrow> int \<times> int \<Rightarrow> error + color" where
  "getpixel img xy =
     (case locate img xy of
        Inl e \<Rightarrow> Inl e
      | Inr a \<Rightarrow> Inr (to_color (pixels img a)))"

text \<open>
  \<^verbatim>\<open>putpixel\<close> stores each channel as a byte; the library clips a channel outside
  0..255. The program only stores colours read from an image or taken from the palette.
\<close>

definition clip8 :: "int \<Rightarrow> 8 word" where
  "clip8 v = word_of_int (if v < 0 then 0 else if 255 < v then 255 else v)"

fun to_pixel :: "color \<Rightarrow> pixel" where
  "to_pixel (r, g, b) = (clip8 r, clip8 g, clip8 b)"

definition putpixel :: "image \<Rightarrow> int \<times> int \<Rightarrow> color \<Rightarrow> error + image" where
  "putpixel img xy color =
     (case locate img xy of
        Inl e \<Rightarrow> Inl e
      | Inr a \<Rightarrow> Inr (img\<lparr>pixels := (pixels img)(a := to_pixel color)\<rparr>))"

subsection \<open>Loops\<close>

text \<open>\<^verbatim>\<open>range(n)\<close>: the integers from 0 up to \<open>n - 1\<close>, none when \<open>n \<le> 0\<close>.\<close>

definition py_range :: "int \<Rightarrow> int list" where
  "py_range n = [0..n - 1]"

text \<open>
  A \<^verbatim>\<open>for\<close> loop over a list whose body updates a state and may raise: the first
  exception ends the loop.
\<close>

fun for_each :: "'a list \<Rightarrow> ('a \<Rightarrow> 's \<Rightarrow> error + 's) \<Rightarrow> 's \<Rightarrow> error + 's" where
  "for_each [] body s = Inr s"
| "for_each (i # is) body s =
     (case body i s of Inl e \<Rightarrow> Inl e | Inr s' \<Rightarrow> for_each is body s')"

subsection \<open>The main pixelation function\<close>

text \<open>
  The colour of one cell: the palette match (accurate or fast) when the palette is in
  use, the downsampled colour itself otherwise.
\<close>

definition cell_color ::
  "(color \<Rightarrow> 'l) \<Rightarrow> ('l \<Rightarrow> 'l \<Rightarrow> pyfloat) \<Rightarrow> bool \<Rightarrow> bool \<Rightarrow> color \<Rightarrow> error + color" where
  "cell_color rgb_to_lab delta_e use_lego_palette high_accuracy orig_color =
     (if use_lego_palette then
        (if high_accuracy then Inr (closest_lego_color_lab rgb_to_lab delta_e orig_color)
         else closest_lego_color orig_color)
      else Inr orig_color)"

text \<open>The two inner loops: the block of cell \<open>(x, y)\<close> is written pixel by pixel.\<close>

definition fill_block :: "int \<Rightarrow> int \<Rightarrow> int \<Rightarrow> color \<Rightarrow> image \<Rightarrow> error + image" where
  "fill_block pixel_size x y color result =
     for_each (py_range pixel_size) (\<lambda>dy.
       for_each (py_range pixel_size) (\<lambda>dx r.
         putpixel r (x * pixel_size + dx, y * pixel_size + dy) color)) result"

text \<open>
  \<^verbatim>\<open>img.resize(grid_size, resample=Image.BILINEAR)\<close> is the library's resampling
  filter: the parameter \<open>resize\<close>, which returns the downsampled image or raises.
\<close>

definition lego_pixelate ::
  "(image \<Rightarrow> int \<times> int \<Rightarrow> error + image) \<Rightarrow> (color \<Rightarrow> 'l) \<Rightarrow> ('l \<Rightarrow> 'l \<Rightarrow> pyfloat) \<Rightarrow>
     image \<Rightarrow> int \<Rightarrow> int \<times> int \<Rightarrow> bool \<Rightarrow> bool \<Rightarrow> error + image" where
  "lego_pixelate resize rgb_to_lab delta_e img pixel_size grid_size
       use_lego_palette high_accuracy =
     (case resize img grid_size of
        Inl e \<Rightarrow> Inl e
      | Inr small \<Rightarrow>
          (case image_new (fst grid_size * pixel_size, snd grid_size * pixel_size) of
             Inl e \<Rightarrow> Inl e
           | Inr result \<Rightarrow>
               for_each (py_range (snd grid_size)) (\<lambda>y.
                 for_each (py_range (fst grid_size)) (\<lambda>x r.
                   (case getpixel small (x, y) of
                      Inl e \<Rightarrow> Inl e
                    | Inr orig_color \<Rightarrow>
                        (case cell_color rgb_to_lab delta_e use_lego_palette high_accuracy
                                orig_color of
                           Inl e \<Rightarrow> Inl e
                         | Inr color \<Rightarrow> fill_block pixel_size x y color r)))) result))"

subsection \<open>Float arithmetic and the grid height\<close>

text \<open>
  The operations on floats that the derivation of the grid height uses. A result is the
  exact rational result rounded to binary64: to the nearest multiple of the quantum
  \<open>2 powi q\<close>, ties to the even multiple, where \<open>q\<close> is 52 below the
  binary exponent of the number and never below \<open>- 1074\<close> (the subnormal range). A
  rounded magnitude of \<open>2 ^ 1024\<close> or more is an infinity.
\<close>

definition round_half_even :: "rat \<Rightarrow> int" where
  "round_half_even r =
     (let f = \<lfloor>r\<rfloor>; d = r - of_int f
      in if d < 1 / 2 then f else if 1 / 2 < d then f + 1 else if even f then f else f + 1)"

text \<open>
  The binary exponent \<open>\<lfloor>log\<^sub>2 x\<rfloor>\<close> of a positive rational, from the bit lengths
  of its numerator and denominator.
\<close>

definition flog2 :: "rat \<Rightarrow> int" where
  "flog2 x =
     (let d = bitlen (fst (quotient_of x)) - bitlen (snd (quotient_of x))
      in if 2 powi d \<le> x then d else d - 1)"

definition round_double :: "rat \<Rightarrow> pyfloat" where
  "round_double x =
     (if x = 0 then Fin 0
      else
        let e = flog2 \<bar>x\<bar>;
            q = max (e - 52) (- 1074);
            n = round_half_even (\<bar>x\<bar> / 2 powi q);
            y = of_int n * 2 powi q
        in if 2 ^ 1024 \<le> y then (if 0 < x then PosInf else NegInf)
           else Fin (sgn x * y))"

text \<open>
  \<^verbatim>\<open>a / b\<close> on two integers is the correctly rounded quotient; it raises
  ZeroDivisionError for \<open>b = 0\<close> and OverflowError when the quotient is too large
  for a float.
\<close>

definition py_truediv :: "int \<Rightarrow> int \<Rightarrow> error + pyfloat" where
  "py_truediv a b =
     (if b = 0 then Inl ZeroDivisionError
      else case round_double (of_int a / of_int b) of
             Fin r \<Rightarrow> Inr (Fin r)
           | _ \<Rightarrow> Inl OverflowError)"

text \<open>
  In \<^verbatim>\<open>int * float\<close> the integer is first converted to a float, which raises
  OverflowError when it is too large.
\<close>

definition py_float :: "int \<Rightarrow> error + pyfloat" where
  "py_float n =
     (case round_double (of_int n) of
        Fin r \<Rightarrow> Inr (Fin r)
      | _ \<Rightarrow> Inl OverflowError)"

text \<open>
  The product of two floats: the rounded exact product of two finite numbers; NaN and
  the infinities follow IEEE 754 (an infinity times zero is NaN).
\<close>

fun float_mul :: "pyfloat \<Rightarrow> pyfloat \<Rightarrow> pyfloat" where
  "float_mul NaN _ = NaN"
| "float_mul _ NaN = NaN"
| "float_mul (Fin a) (Fin b) = round_double (a * b)"
| "float_mul (Fin a) i = (if a = 0 then NaN else if (0 < a) = (i = PosInf) then PosInf else NegInf)"
| "float_mul i (Fin b) = (if b = 0 then NaN else if (0 < b) = (i = PosInf) then PosInf else NegInf)"
| "float_mul i j = (if i = j then PosInf else NegInf)"

text \<open>
  \<^verbatim>\<open>int(f)\<close> truncates toward zero; it raises OverflowError on an infinity and
  ValueError on NaN.
\<close>

definition py_int :: "pyfloat \<Rightarrow> error + int" where
  "py_int f =
     (case f of
        Fin r \<Rightarrow> Inr (if 0 \<le> r then \<lfloor>r\<rfloor> else \<lceil>r\<rceil>)
      | NaN \<Rightarrow> Inl ValueError
      | _ \<Rightarrow> Inl OverflowError)"

text \<open>
  The grid height that the interface passes to the renderer:
  \<^verbatim>\<open>aspect_ratio = original.height / original.width\<close>, then
  \<^verbatim>\<open>height_blocks = int(width_blocks * aspect_ratio)\<close>.
\<close>

definition height_blocks :: "int \<Rightarrow> int \<Rightarrow> int \<Rightarrow> error + int" where
  "height_blocks width_blocks original_height original_width =
     (case py_truediv original_height original_width of
        Inl e \<Rightarrow> Inl e
      | Inr aspect_ratio \<Rightarrow>
          (case py_float width_blocks of
             Inl e \<Rightarrow> Inl e
           | Inr wb \<Rightarrow> py_int (float_mul wb aspect_ratio)))"

text \<open>
  The grid height as the specification words it:
  \<^verbatim>\<open>round(width * sourceHeight / sourceWidth)\<close>, rounding to the nearest integer.
\<close>

definition spec_height :: "int \<Rightarrow> int \<Rightarrow> int \<Rightarrow> int" where
  "spec_height w source_height source_width =
     round (of_int w * of_int source_height / (of_int source_width :: rat))"

text \<open>
  The binary64 numbers: an integer significand below \<open>2 ^ 53\<close> in magnitude times
  a power of two that is at least the smallest quantum, below \<open>2 ^ 1024\<close>.
\<close>

definition representable :: "rat \<Rightarrow> bool" where
  "representable x =
     (\<exists>m q. x = of_int m * 2 powi q \<and> \<bar>m\<bar> < 2 ^ 53 \<and> - 1074 \<le> q \<and> \<bar>x\<bar> < 2 ^ 1024)"

subsection \<open>Predicates on images and on the resampling filter\<close>

text \<open>
  An image is solid when every pixel inside its size reads as the same colour.
\<close>

definition solid :: "image \<Rightarrow> color \<Rightarrow> bool" where
  "solid img c =
     (\<forall>y\<in>set (py_range (height img)). \<forall>x\<in>set (py_range (width img)).
        getpixel img (x, y) = Inr c)"

text \<open>
  A resampling filter keeps solid images solid when resizing a non-empty solid image to
  a positive size succeeds with an image of that size and of the same single colour
  (an interpolation of equal values is that value).
\<close>

definition keeps_solid :: "(image \<Rightarrow> int \<times> int \<Rightarrow> error + image) \<Rightarrow> bool" where
  "keeps_solid resize =
     (\<forall>img c g. 0 < width img \<and> 0 < height img \<and> solid img c \<and> 0 < fst g \<and> 0 < snd g \<longrightarrow>
        (\<exists>small. resize img g = Inr small \<and> width small = fst g \<and> height small = snd g \<and>
           solid small c))"

subsection \<open>The closed form of the pixelation loops\<close>

text \<open>
  Writing a set of addresses with the colours of a given colouring; the block of a grid
  cell; the colour that the loops give to an output address; and the image they build.
  The loops are proved equal to this closed form below.
\<close>

definition paintf :: "(int \<times> int) set \<Rightarrow> (int \<times> int \<Rightarrow> pixel) \<Rightarrow> image \<Rightarrow> image" where
  "paintf R G img = img\<lparr>pixels := (\<lambda>q. if q \<in> R then G q else pixels img q)\<rparr>"

definition block :: "int \<Rightarrow> int \<Rightarrow> int \<Rightarrow> (int \<times> int) set" where
  "block p x y = {x * p ..< x * p + p} \<times> {y * p ..< y * p + p}"

definition block_pixel ::
  "(color \<Rightarrow> 'l) \<Rightarrow> ('l \<Rightarrow> 'l \<Rightarrow> pyfloat) \<Rightarrow> bool \<Rightarrow> bool \<Rightarrow> image \<Rightarrow> int \<Rightarrow> int \<times> int \<Rightarrow> pixel" where
  "block_pixel rgb_to_lab delta_e use_lego_palette high_accuracy small p q =
     (case cell_color rgb_to_lab delta_e use_lego_palette high_accuracy
             (to_color (pixels small (fst q div p, snd q div p))) of
        Inl e \<Rightarrow> (0, 0, 0)
      | Inr c \<Rightarrow> to_pixel c)"

definition mosaic ::
  "(color \<Rightarrow> 'l) \<Rightarrow> ('l \<Rightarrow> 'l \<Rightarrow> pyfloat) \<Rightarrow> bool \<Rightarrow> bool \<Rightarrow> image \<Rightarrow> int \<Rightarrow> int \<times> int \<Rightarrow> image" where
  "mosaic rgb_to_lab delta_e use_lego_palette high_accuracy small p grid_size =
     \<lparr>width = fst grid_size * p, height = snd grid_size * p,
      pixels = (\<lambda>q. if q \<in> {0..<fst grid_size * p} \<times> {0..<snd grid_size * p}
                     then block_pixel rgb_to_lab delta_e use_lego_palette high_accuracy small p q
                     else (0, 0, 0))\<rparr>"

text \<open>
  One step of a minimum scan that keeps the earlier item on ties, and the position of a
  float that is a number in the order of the extended rationals.
\<close>

definition keep_min :: "('a \<Rightarrow> 'k::linorder) \<Rightarrow> 'a \<Rightarrow> 'a \<Rightarrow> 'a" where
  "keep_min key c best = (if key c < key best then c else best)"

fun rank :: "pyfloat \<Rightarrow> int \<times> rat" where
  "rank NegInf = (-1, 0)"
| "rank (Fin r) = (0, r)"
| "rank PosInf = (1, 0)"
| "rank NaN = (2, 0)"

subsection \<open>Concrete inputs\<close>

text \<open>
  Concrete values for the parameters, on which the theorems below are instantiated: a
  nearest-neighbour resampling filter that rejects a size below 1 with ValueError, an
  identity colour conversion with the squared RGB distance as the colour difference, a
  solid red image of 4 by 3 pixels and an image of one red and one blue pixel.
\<close>

definition nearest_resize :: "image \<Rightarrow> int \<times> int \<Rightarrow> error + image" where
  "nearest_resize img g =
     (if fst g < 1 \<or> snd g < 1 then Inl ValueError
      else Inr \<lparr>width = fst g, height = snd g,
                pixels = (\<lambda>q. pixels img (fst q * width img div fst g,
                                         snd q * height img div snd g))\<rparr>)"

definition euclid_lab :: "color \<Rightarrow> color" where
  "euclid_lab c = c"

definition euclid_delta :: "color \<Rightarrow> color \<Rightarrow> pyfloat" where
  "euclid_delta a b = Fin (of_int (distance a b))"

definition red_image :: image where
  "red_image = \<lparr>width = 4, height = 3, pixels = (\<lambda>_. (255, 0, 0))\<rparr>"

definition two_tone :: image where
  "two_tone = \<lparr>width = 2, height = 1,
                pixels = (\<lambda>q. if fst q = 0 then (255, 0, 0) else (0, 85, 191))\<rparr>"

section \<open>Properties\<close>

subsection \<open>Arithmetic of cells and bytes\<close>

lemma div_cell:
  assumes "0 < (p::int)" "x * p \<le> a" "a < x * p + p" shows "a div p = x"
proof -
  define r where "r = a - x * p"
  have a: "a = x * p + r" by (simp add: r_def)
  have "r div p = 0" using assms by (intro div_pos_pos_trivial) (auto simp: r_def)
  then show ?thesis using assms(1) unfolding a by simp
qed

lemma cell_in:
  assumes "0 < (p::int)" "0 \<le> a" "a < g * p"
  shows "0 \<le> a div p" "a div p < g" "(a div p) * p \<le> a" "a < (a div p) * p + p"
proof -
  have m: "0 \<le> a mod p" "a mod p < p" using assms by simp_all
  have e: "a div p * p = a - a mod p" by (simp add: minus_mod_eq_div_mult)
  show "0 \<le> a div p" using assms by (simp add: pos_imp_zdiv_nonneg_iff)
  show "(a div p) * p \<le> a" using e m by simp
  show "a < (a div p) * p + p" using e m by simp
  show "a div p < g"
  proof (rule ccontr)
    assume "\<not> a div p < g"
    then have "g * p \<le> a div p * p" using assms by (intro mult_right_mono) auto
    with e m assms show False by simp
  qed
qed





lemma distance_nonneg: "0 \<le> distance a b"
  by (cases a; cases b) simp

lemma distance_zero: "distance a b = 0 \<longleftrightarrow> a = b"
proof (cases a; cases b)
  fix r1 g1 b1 r2 g2 b2 :: int
  assume ab: "a = (r1, g1, b1)" "b = (r2, g2, b2)"
  have "(r1 - r2)\<^sup>2 + (g1 - g2)\<^sup>2 + (b1 - b2)\<^sup>2 = 0 \<longleftrightarrow>
      (r1 - r2)\<^sup>2 = 0 \<and> (g1 - g2)\<^sup>2 = 0 \<and> (b1 - b2)\<^sup>2 = 0"
    using zero_le_power2 [of "r1 - r2"] zero_le_power2 [of "g1 - g2"] zero_le_power2 [of "b1 - b2"]
    by linarith
  then show ?thesis by (simp add: ab)
qed

subsection \<open>The stable minimum scan\<close>

lemma flt_lt_rank: "a \<noteq> NaN \<Longrightarrow> b \<noteq> NaN \<Longrightarrow> flt_lt a b = (rank a < rank b)"
  by (cases a; cases b) simp_all

lemma flt_le_rank: "a \<noteq> NaN \<Longrightarrow> b \<noteq> NaN \<Longrightarrow> flt_le a b = (rank a \<le> rank b)"
  by (cases a; cases b) (auto simp: flt_le_def)

lemma rank_inj: "rank a = rank b \<Longrightarrow> a = b"
  by (cases a; cases b) simp_all

lemma fold_keep_min:
  fixes key :: "'a \<Rightarrow> 'k::linorder"
  shows "fold (keep_min key) ys y \<in> set (y # ys) \<and>
     (\<forall>x\<in>set (y # ys). key (fold (keep_min key) ys y) \<le> key x) \<and>
     find (\<lambda>x. key x = key (fold (keep_min key) ys y)) (y # ys) = Some (fold (keep_min key) ys y)"
proof (induction ys arbitrary: y)
  case Nil
  then show ?case by simp
next
  case (Cons a ys)
  define y' where "y' = keep_min key a y"
  define b where "b = fold (keep_min key) ys y'"
  have eq: "fold (keep_min key) (a # ys) y = b" by (simp add: b_def y'_def)
  from Cons.IH [of y'] have
    mem: "b \<in> set (y' # ys)" and
    le: "\<forall>x\<in>set (y' # ys). key b \<le> key x" and
    fnd: "find (\<lambda>x. key x = key b) (y' # ys) = Some b"
    unfolding b_def by blast+
  show ?case
  proof (cases "key a < key y")
    case True
    then have y': "y' = a" by (simp add: keep_min_def y'_def)
    from le y' True have "key b < key y" by auto
    with mem le fnd y' show ?thesis unfolding eq by auto
  next
    case False
    then have y': "y' = y" by (simp add: keep_min_def y'_def)
    from le y' False have lea: "key b \<le> key a" by auto
    show ?thesis
    proof (cases "key y = key b")
      case True
      with mem le fnd y' lea show ?thesis unfolding eq by auto
    next
      case False
      with le y' have "key b < key y" by auto
      with \<open>\<not> key a < key y\<close> have "key a \<noteq> key b" by auto
      with mem le fnd y' lea False show ?thesis unfolding eq by auto
    qed
  qed
qed

lemma py_min_first:
  fixes key :: "'a \<Rightarrow> int"
  assumes "xs \<noteq> []"
  shows "\<exists>b\<in>set xs. py_min key xs = Inr b \<and> (\<forall>x\<in>set xs. key b \<le> key x) \<and>
     find (\<lambda>x. key x = key b) xs = Some b"
proof -
  obtain y ys where xs: "xs = y # ys" using assms by (cases xs) auto
  have "py_min key xs = Inr (fold (keep_min key) ys y)"
    by (simp add: py_min_def xs keep_min_def [abs_def])
  with fold_keep_min [of key ys y] show ?thesis unfolding xs by auto
qed

lemma lab_fold_keep_min:
  assumes "\<forall>c\<in>set (y # ys). delta_e t (rgb_to_lab (rgb c)) \<noteq> NaN"
  shows "fold (lab_step delta_e rgb_to_lab t) ys (delta_e t (rgb_to_lab (rgb y)), y) =
     (let b = fold (keep_min (\<lambda>c. rank (delta_e t (rgb_to_lab (rgb c))))) ys y
      in (delta_e t (rgb_to_lab (rgb b)), b))"
  using assms
proof (induction ys arbitrary: y)
  case Nil
  then show ?case by simp
next
  case (Cons a ys)
  have "lab_step delta_e rgb_to_lab t a (delta_e t (rgb_to_lab (rgb y)), y) =
     (let y' = keep_min (\<lambda>c. rank (delta_e t (rgb_to_lab (rgb c)))) a y
      in (delta_e t (rgb_to_lab (rgb y')), y'))"
    using Cons.prems by (simp add: lab_step_def keep_min_def flt_lt_rank Let_def)
  moreover have "\<forall>c\<in>set (keep_min (\<lambda>c. rank (delta_e t (rgb_to_lab (rgb c)))) a y # ys).
      delta_e t (rgb_to_lab (rgb c)) \<noteq> NaN"
    using Cons.prems by (simp add: keep_min_def)
  ultimately show ?case using Cons.IH by (simp add: Let_def)
qed

lemma lab_scan_first:
  assumes "xs \<noteq> []" "\<forall>c\<in>set xs. delta_e t (rgb_to_lab (rgb c)) \<noteq> NaN"
  shows "\<exists>b\<in>set xs. snd (fold (lab_step delta_e rgb_to_lab t) xs (PosInf, xs ! 0)) = b \<and>
     (\<forall>x\<in>set xs. flt_le (delta_e t (rgb_to_lab (rgb b))) (delta_e t (rgb_to_lab (rgb x)))) \<and>
     find (\<lambda>x. delta_e t (rgb_to_lab (rgb x)) = delta_e t (rgb_to_lab (rgb b))) xs = Some b"
proof -
  let ?k = "\<lambda>c. delta_e t (rgb_to_lab (rgb c))"
  obtain y ys where xs: "xs = y # ys" using assms by (cases xs) auto
  have ky: "?k y \<noteq> NaN" using assms xs by simp
  have "lab_step delta_e rgb_to_lab t y (PosInf, y) = (?k y, y)"
    using ky by (cases "?k y") (simp_all add: lab_step_def Let_def)
  then have "fold (lab_step delta_e rgb_to_lab t) xs (PosInf, xs ! 0) =
      fold (lab_step delta_e rgb_to_lab t) ys (?k y, y)"
    by (simp add: xs)
  also have "\<dots> = (let b = fold (keep_min (\<lambda>c. rank (?k c))) ys y in (?k b, b))"
    using assms(2) unfolding xs by (rule lab_fold_keep_min)
  finally have res: "snd (fold (lab_step delta_e rgb_to_lab t) xs (PosInf, xs ! 0)) =
      fold (keep_min (\<lambda>c. rank (?k c))) ys y"
    by (simp add: Let_def)
  let ?b = "fold (keep_min (\<lambda>c. rank (?k c))) ys y"
  from fold_keep_min [of "\<lambda>c. rank (?k c)" ys y] have
    mem: "?b \<in> set xs" and
    le: "\<forall>x\<in>set xs. rank (?k ?b) \<le> rank (?k x)" and
    fnd: "find (\<lambda>x. rank (?k x) = rank (?k ?b)) xs = Some ?b"
    unfolding xs by blast+
  have "find (\<lambda>x. ?k x = ?k ?b) xs = find (\<lambda>x. rank (?k x) = rank (?k ?b)) xs"
    by (rule find_cong) (auto dest: rank_inj)
  with fnd have "find (\<lambda>x. ?k x = ?k ?b) xs = Some ?b" by simp
  moreover have "\<forall>x\<in>set xs. flt_le (?k ?b) (?k x)"
    using le mem assms(2) by (auto simp: flt_le_rank)
  ultimately show ?thesis using mem res by auto
qed


lemma LEGO_COLORS_nonempty: "LEGO_COLORS \<noteq> []"
  by (simp add: LEGO_COLORS_def)

lemma closest_lego_color_first:
  "\<exists>e\<in>set LEGO_COLORS. closest_lego_color p = Inr (rgb e) \<and>
     (\<forall>c\<in>set LEGO_COLORS. distance p (rgb e) \<le> distance p (rgb c)) \<and>
     find (\<lambda>c. distance p (rgb c) = distance p (rgb e)) LEGO_COLORS = Some e"
  using py_min_first [OF LEGO_COLORS_nonempty, of "\<lambda>c. distance p (rgb c)"]
  by (auto simp: closest_lego_color_def)

lemma closest_lego_color_lab_first:
  assumes "\<forall>c\<in>set LEGO_COLORS. delta_e (rgb_to_lab p) (rgb_to_lab (rgb c)) \<noteq> NaN"
  shows "\<exists>e\<in>set LEGO_COLORS. closest_lego_color_lab rgb_to_lab delta_e p = rgb e \<and>
     (\<forall>c\<in>set LEGO_COLORS.
        flt_le (delta_e (rgb_to_lab p) (rgb_to_lab (rgb e)))
               (delta_e (rgb_to_lab p) (rgb_to_lab (rgb c)))) \<and>
     find (\<lambda>c. delta_e (rgb_to_lab p) (rgb_to_lab (rgb c)) =
                delta_e (rgb_to_lab p) (rgb_to_lab (rgb e))) LEGO_COLORS = Some e"
  using lab_scan_first [where delta_e = delta_e and rgb_to_lab = rgb_to_lab
      and t = "rgb_to_lab p", OF LEGO_COLORS_nonempty assms]
  unfolding closest_lego_color_lab_def Let_def by blast


lemma closest_red: "closest_lego_color (255, 0, 0) = Inr (180, 0, 0)"
  by (simp add: closest_lego_color_def py_min_def LEGO_COLORS_def)

lemma cell_color_total:
  "\<exists>c. cell_color rgb_to_lab delta_e u a orig = Inr c"
proof -
  obtain e :: palette_color where "closest_lego_color orig = Inr (rgb e)"
    using closest_lego_color_first [of orig] by blast
  then show ?thesis
    by (cases u; cases a) (simp_all add: cell_color_def del: split_paired_Ex)
qed


subsection \<open>The loops write the mosaic\<close>

lemma paintf_size [simp]: "width (paintf R G s) = width s" "height (paintf R G s) = height s"
  by (simp_all add: paintf_def)

lemma paintf_empty [simp]: "paintf {} G s = s"
  by (simp add: paintf_def)

lemma paintf_paintf: "paintf B G (paintf A G s) = paintf (A \<union> B) G s"
  by (auto simp: paintf_def fun_eq_iff)

lemma set_py_range [simp]: "set (py_range n) = {0..<n}"
  by (auto simp: py_range_def)

lemma for_each_paintf:
  assumes "\<And>i s. i \<in> set xs \<Longrightarrow> width s = W \<Longrightarrow> height s = H \<Longrightarrow> body i s = Inr (paintf (R i) G s)"
    and "width s = W" "height s = H"
  shows "for_each xs body s = Inr (paintf (\<Union>i\<in>set xs. R i) G s)"
  using assms
proof (induction xs arbitrary: s)
  case Nil
  then show ?case by simp
next
  case (Cons a xs)
  have "body a s = Inr (paintf (R a) G s)" using Cons.prems by simp
  moreover have "for_each xs body (paintf (R a) G s) = Inr (paintf (\<Union>i\<in>set xs. R i) G (paintf (R a) G s))"
    by (rule Cons.IH) (use Cons.prems in simp_all)
  ultimately show ?case by (simp add: paintf_paintf)
qed

lemma putpixel_paintf:
  assumes "0 \<le> x" "x < width r" "0 \<le> y" "y < height r" "G (x, y) = to_pixel c"
  shows "putpixel r (x, y) c = Inr (paintf {(x, y)} G r)"
  using assms by (auto simp: putpixel_def locate_def paintf_def fun_eq_iff Let_def)

lemma fill_block_paintf:
  assumes "0 \<le> x * p" "x * p + p \<le> width r" "0 \<le> y * p" "y * p + p \<le> height r"
    and "\<And>q. q \<in> block p x y \<Longrightarrow> G q = to_pixel c"
  shows "fill_block p x y c r = Inr (paintf (block p x y) G r)"
proof -
  have row: "for_each (py_range p) (\<lambda>dx r. putpixel r (x * p + dx, y * p + dy) c) s
      = Inr (paintf (\<Union>dx\<in>set (py_range p). {(x * p + dx, y * p + dy)}) G s)"
    if "dy \<in> set (py_range p)" "width s = width r" "height s = height r" for dy and s :: image
  proof (rule for_each_paintf [where W = "width r" and H = "height r"])
    fix dx and s' :: image assume "dx \<in> set (py_range p)" "width s' = width r" "height s' = height r"
    with that assms show "putpixel s' (x * p + dx, y * p + dy) c = Inr (paintf {(x * p + dx, y * p + dy)} G s')"
      by (intro putpixel_paintf) (auto simp: block_def)
  qed (use that in auto)
  have "fill_block p x y c r = Inr (paintf (\<Union>dy\<in>set (py_range p). \<Union>dx\<in>set (py_range p). {(x * p + dx, y * p + dy)}) G r)"
    unfolding fill_block_def
    by (rule for_each_paintf [where W = "width r" and H = "height r"]) (use row in auto)
  moreover have "(\<Union>dy\<in>set (py_range p). \<Union>dx\<in>set (py_range p). {(x * p + dx, y * p + dy)}) = block p x y"
  proof -
    have "\<exists>dx\<in>{0..<p}. a = x * p + dx" if "x * p \<le> a" "a < x * p + p" for a
      using that by (intro bexI [of _ "a - x * p"]) auto
    moreover have "\<exists>dy\<in>{0..<p}. b = y * p + dy" if "y * p \<le> b" "b < y * p + p" for b
      using that by (intro bexI [of _ "b - y * p"]) auto
    ultimately show ?thesis by (auto simp: block_def)
  qed
  ultimately show ?thesis by simp
qed

lemma blocks_cover:
  assumes "0 < (p::int)"
  shows "(\<Union>y\<in>{0..<gh}. \<Union>x\<in>{0..<gw}. block p x y) = {0..<gw * p} \<times> {0..<gh * p}"
proof (intro set_eqI iffI)
  fix q assume "q \<in> (\<Union>y\<in>{0..<gh}. \<Union>x\<in>{0..<gw}. block p x y)"
  then obtain x y where xy: "0 \<le> x" "x < gw" "0 \<le> y" "y < gh" and q: "q \<in> block p x y" by auto
  have "x * p + p \<le> gw * p" "y * p + p \<le> gh * p"
    using mult_right_mono [of "x + 1" gw p] mult_right_mono [of "y + 1" gh p] xy assms
    by (simp_all add: algebra_simps)
  moreover have "0 \<le> x * p" "0 \<le> y * p" using xy assms by simp_all
  ultimately show "q \<in> {0..<gw * p} \<times> {0..<gh * p}" using q by (auto simp: block_def)
next
  fix q assume "q \<in> {0..<gw * p} \<times> {0..<gh * p}"
  then obtain a b where q: "q = (a, b)" and ab: "0 \<le> a" "a < gw * p" "0 \<le> b" "b < gh * p"
    by auto
  from cell_in [OF assms ab(1,2)] cell_in [OF assms ab(3,4)]
  have "a div p \<in> {0..<gw}" "b div p \<in> {0..<gh}" "q \<in> block p (a div p) (b div p)"
    by (auto simp: block_def q)
  then show "q \<in> (\<Union>y\<in>{0..<gh}. \<Union>x\<in>{0..<gw}. block p x y)" by blast
qed

lemma lego_pixelate_mosaic:
  assumes rs: "resize img (gw, gh) = Inr small" "width small = gw" "height small = gh"
    and pos: "0 < p" "0 < gw" "0 < gh"
  shows "lego_pixelate resize rgb_to_lab delta_e img p (gw, gh) u a =
     Inr (mosaic rgb_to_lab delta_e u a small p (gw, gh))"
proof -
  let ?G = "block_pixel rgb_to_lab delta_e u a small p"
  define r0 where "r0 = \<lparr>width = gw * p, height = gh * p, pixels = (\<lambda>_. (0, 0, 0) :: pixel)\<rparr>"
  let ?cell = "\<lambda>y x r. (case getpixel small (x, y) of
                      Inl e \<Rightarrow> Inl e
                    | Inr orig_color \<Rightarrow>
                        (case cell_color rgb_to_lab delta_e u a orig_color of
                           Inl e \<Rightarrow> Inl e
                         | Inr color \<Rightarrow> fill_block p x y color r))"
  have "0 \<le> gw * p" "0 \<le> gh * p" using pos by simp_all
  then have new: "image_new (gw * p, gh * p) = Inr r0"
    by (simp add: image_new_def r0_def not_less)
  have cell: "?cell y x r = Inr (paintf (block p x y) ?G r)"
    if "x \<in> set (py_range gw)" "y \<in> set (py_range gh)" "width r = gw * p" "height r = gh * p"
    for x y and r :: image
  proof -
    from that have xy: "0 \<le> x" "x < gw" "0 \<le> y" "y < gh" by simp_all
    have gp: "getpixel small (x, y) = Inr (to_color (pixels small (x, y)))"
      using xy rs by (simp add: getpixel_def locate_def)
    obtain c where c: "cell_color rgb_to_lab delta_e u a (to_color (pixels small (x, y))) = Inr c"
      using cell_color_total by blast
    have bounds: "0 \<le> x * p" "x * p + p \<le> gw * p" "0 \<le> y * p" "y * p + p \<le> gh * p"
      using mult_right_mono [of "x + 1" gw p] mult_right_mono [of "y + 1" gh p] xy pos
      by (simp_all add: algebra_simps)
    have "fill_block p x y c r = Inr (paintf (block p x y) ?G r)"
    proof (rule fill_block_paintf)
      fix q assume "q \<in> block p x y"
      then have "fst q div p = x" "snd q div p = y"
        using pos by (auto simp: block_def intro: div_cell)
      then show "?G q = to_pixel c" by (simp add: block_pixel_def c)
    qed (use bounds that in simp_all)
    with gp c show ?thesis by simp
  qed
  have row: "for_each (py_range gw) (?cell y) r = Inr (paintf (\<Union>x\<in>set (py_range gw). block p x y) ?G r)"
    if "y \<in> set (py_range gh)" "width r = gw * p" "height r = gh * p" for y and r :: image
    by (rule for_each_paintf [where W = "gw * p" and H = "gh * p"]) (use that cell in auto)
  have "for_each (py_range gh) (\<lambda>y. for_each (py_range gw) (?cell y)) r0 =
      Inr (paintf (\<Union>y\<in>set (py_range gh). \<Union>x\<in>set (py_range gw). block p x y) ?G r0)"
    by (rule for_each_paintf [where W = "gw * p" and H = "gh * p"]) (use row in \<open>auto simp: r0_def\<close>)
  also have "(\<Union>y\<in>set (py_range gh). \<Union>x\<in>set (py_range gw). block p x y) = {0..<gw * p} \<times> {0..<gh * p}"
    using blocks_cover [OF pos(1)] by simp
  also have "paintf ({0..<gw * p} \<times> {0..<gh * p}) ?G r0 = mosaic rgb_to_lab delta_e u a small p (gw, gh)"
    by (simp add: paintf_def mosaic_def r0_def cong: if_cong)
  finally show ?thesis by (simp add: lego_pixelate_def rs new)
qed


lemma solid_pixels:
  "solid img c \<longleftrightarrow> (\<forall>x y. 0 \<le> x \<and> x < width img \<and> 0 \<le> y \<and> y < height img \<longrightarrow>
      to_color (pixels img (x, y)) = c)"
  by (auto simp: solid_def getpixel_def locate_def)

subsection \<open>Rounding to binary64\<close>

lemma round_half_even_int: "round_half_even (of_int n) = n"
  by (simp add: round_half_even_def)

lemma flog2_le:
  assumes "0 < x"
  shows "2 powi (flog2 x) \<le> x"
proof -
  obtain a b where ab: "quotient_of x = (a, b)" by (cases "quotient_of x")
  then have b: "0 < b" and x: "x = of_int a / of_int b"
    by (auto dest: quotient_of_denom_pos quotient_of_div)
  from assms x b have a: "0 < a" by (simp add: zero_less_divide_iff)
  define d where "d = bitlen a - bitlen b"
  show ?thesis
  proof (cases "2 powi d \<le> x")
    case True
    then show ?thesis by (simp add: flog2_def ab d_def)
  next
    case False
    have la: "1 \<le> bitlen a" and lb: "1 \<le> bitlen b"
      using a b bitlen_eq_zero_iff [of a] bitlen_eq_zero_iff [of b] bitlen_nonneg [of a] bitlen_nonneg [of b]
      by linarith+
    have "(2::int) ^ nat (bitlen a - 1) \<le> a" using bitlen_bounds [OF a] by simp
    then have "(of_int ((2::int) ^ nat (bitlen a - 1)) :: rat) \<le> of_int a" by (simp only: of_int_le_iff)
    then have A: "(2::rat) powi (bitlen a - 1) \<le> of_int a"
      using la by (simp add: power_int_def)
    have "b < 2 ^ nat (bitlen b)" using bitlen_bounds [OF b] by simp
    then have "(of_int b :: rat) < of_int ((2::int) ^ nat (bitlen b))" by (simp only: of_int_less_iff)
    then have B: "of_int b < (2::rat) powi (bitlen b)"
      using lb by (simp add: power_int_def)
    have "(2::rat) powi (d - 1) = 2 powi (bitlen a - 1) / 2 powi (bitlen b)"
      by (simp add: d_def power_int_diff [symmetric] algebra_simps)
    also have "\<dots> \<le> of_int a / 2 powi (bitlen b)"
      using A by (simp add: divide_right_mono)
    also have "\<dots> \<le> of_int a / of_int b"
      using B a b by (intro divide_left_mono) (auto simp: less_imp_le)
    finally have "(2::rat) powi (d - 1) \<le> x" by (simp add: x)
    with False show ?thesis by (simp add: flog2_def ab d_def Let_def)
  qed
qed

lemma round_double_exact:
  assumes "representable x"
  shows "round_double x = Fin x"
proof (cases "x = 0")
  case True
  then show ?thesis by (simp add: round_double_def)
next
  case False
  from assms obtain m q where mq: "x = of_int m * 2 powi q" "\<bar>m\<bar> < 2 ^ 53" "- 1074 \<le> q"
    and big: "\<bar>x\<bar> < 2 ^ 1024"
    unfolding representable_def by blast
  have ax: "\<bar>x\<bar> = of_int \<bar>m\<bar> * 2 powi q" by (simp add: mq abs_mult)
  define e where "e = flog2 \<bar>x\<bar>"
  define qq where "qq = max (e - 52) (- 1074)"
  have "2 powi e \<le> \<bar>x\<bar>" unfolding e_def using False by (intro flog2_le) simp
  also have "\<bar>x\<bar> < 2 ^ 53 * 2 powi q"
  proof -
    have "(of_int \<bar>m\<bar> :: rat) < of_int (2 ^ 53)" using mq(2) by (simp only: of_int_less_iff)
    then show ?thesis unfolding ax by (intro mult_strict_right_mono) auto
  qed
  also have "(2::rat) ^ 53 * 2 powi q = 2 powi (53 + q)"
    by (simp add: power_int_add)
  finally have lt: "(2::rat) powi e < 2 powi (53 + q)" .
  have "e < 53 + q"
  proof (rule ccontr)
    assume "\<not> e < 53 + q"
    then have "53 + q \<le> e" by simp
    then have "(2::rat) powi (53 + q) \<le> 2 powi e" by (intro power_int_increasing) auto
    with lt show False by simp
  qed
  with mq(3) have qq: "qq \<le> q" by (simp add: qq_def)
  define N where "N = \<bar>m\<bar> * 2 ^ nat (q - qq)"
  have "2 powi q = (2::rat) powi (q - qq) * 2 powi qq"
    by (simp add: power_int_add [symmetric])
  also have "(2::rat) powi (q - qq) = 2 ^ nat (q - qq)"
    using qq by (simp add: power_int_def)
  finally have spl: "(2::rat) powi q = 2 ^ nat (q - qq) * 2 powi qq" .
  have quot: "\<bar>x\<bar> / 2 powi qq = of_int N"
    by (simp add: ax spl N_def)
  have undo: "of_int N * 2 powi qq = \<bar>x\<bar>"
    by (simp add: ax spl N_def)
  have sg: "sgn x * \<bar>x\<bar> = x" by (simp add: sgn_mult_abs)
  show ?thesis
    using False big
    by (simp add: round_double_def Let_def e_def [symmetric] qq_def [symmetric] quot
        round_half_even_int undo sg not_le [symmetric])
qed

lemma flog2_bounds:
  assumes "0 < x"
  shows "2 powi (flog2 x) \<le> x" "x < 2 powi (flog2 x + 1)"
proof -
  obtain a b where ab: "quotient_of x = (a, b)" by (cases "quotient_of x")
  then have b: "0 < b" and x: "x = of_int a / of_int b"
    by (auto dest: quotient_of_denom_pos quotient_of_div)
  from assms x b have a: "0 < a" by (simp add: zero_less_divide_iff)
  define d where "d = bitlen a - bitlen b"
  have la: "1 \<le> bitlen a" and lb: "1 \<le> bitlen b"
    using a b bitlen_eq_zero_iff [of a] bitlen_eq_zero_iff [of b] bitlen_nonneg [of a] bitlen_nonneg [of b]
    by linarith+
  have "a < 2 ^ nat (bitlen a)" using bitlen_bounds [OF a] by simp
  then have "(of_int a :: rat) < of_int ((2::int) ^ nat (bitlen a))" by (simp only: of_int_less_iff)
  then have A: "of_int a < (2::rat) powi (bitlen a)"
    using la by (simp add: power_int_def)
  have "(2::int) ^ nat (bitlen b - 1) \<le> b" using bitlen_bounds [OF b] by simp
  then have "(of_int ((2::int) ^ nat (bitlen b - 1)) :: rat) \<le> of_int b" by (simp only: of_int_le_iff)
  then have B: "(2::rat) powi (bitlen b - 1) \<le> of_int b"
    using lb by (simp add: power_int_def)
  have "of_int a / of_int b \<le> of_int a / (2::rat) powi (bitlen b - 1)"
    using B a b by (intro divide_left_mono) (auto simp: less_imp_le)
  also have "\<dots> < 2 powi (bitlen a) / (2::rat) powi (bitlen b - 1)"
    using A by (simp add: divide_strict_right_mono)
  also have "\<dots> = (2::rat) powi (d + 1)"
    by (simp add: d_def power_int_diff [symmetric] algebra_simps)
  finally have up: "x < 2 powi (d + 1)" by (simp add: x)
  show "2 powi (flog2 x) \<le> x" using assms by (rule flog2_le)
  show "x < 2 powi (flog2 x + 1)"
    using up by (simp add: flog2_def ab d_def Let_def not_le)
qed

lemma round_half_even_err: "\<bar>of_int (round_half_even r) - r\<bar> \<le> 1 / 2"
proof -
  have "of_int \<lfloor>r\<rfloor> \<le> r" "r < of_int \<lfloor>r\<rfloor> + 1" by linarith+
  then show ?thesis by (auto simp: round_half_even_def Let_def)
qed

lemma round_double_rel:
  assumes lo: "2 powi (- 1022) \<le> x" and hi: "x < 2 ^ 1023"
  shows "\<exists>y. round_double x = Fin y \<and> \<bar>y - x\<bar> \<le> x / 2 ^ 53"
proof -
  have pos: "0 < x" using lo zero_less_power_int [of "2::rat" "- 1022"] by linarith
  define e where "e = flog2 x"
  define q where "q = max (e - 52) (- 1074)"
  define n where "n = round_half_even (x / 2 powi q)"
  define y where "y = of_int n * (2::rat) powi q"
  have lb: "2 powi e \<le> x" and ub: "x < 2 powi (e + 1)"
    using flog2_bounds [OF pos] by (simp_all add: e_def)
  have "- 1022 < e + 1"
  proof (rule ccontr)
    assume "\<not> - 1022 < e + 1"
    then have "e + 1 \<le> - 1022" by simp
    then have "(2::rat) powi (e + 1) \<le> 2 powi (- 1022)" by (intro power_int_increasing) auto
    with lo ub show False by simp
  qed
  then have q: "q = e - 52" by (simp add: q_def)
  have qpos: "0 < (2::rat) powi q" by simp
  have "y - x = (of_int n - x / 2 powi q) * 2 powi q"
    by (simp add: y_def algebra_simps)
  then have "\<bar>y - x\<bar> = \<bar>of_int n - x / 2 powi q\<bar> * 2 powi q"
    by (simp add: abs_mult)
  also have "\<dots> \<le> (1 / 2) * 2 powi q"
    unfolding n_def using round_half_even_err [of "x / 2 powi q"] qpos
    by (intro mult_right_mono) auto
  also have "(1 / 2) * (2::rat) powi q = 2 powi e / 2 ^ 53"
  proof -
    have "(2::rat) powi (e - 52) = 2 powi e / 2 ^ 52" by (simp add: power_int_diff)
    then show ?thesis by (simp add: q)
  qed
  also have "\<dots> \<le> x / 2 ^ 53" using lb by (simp add: divide_right_mono)
  finally have err: "\<bar>y - x\<bar> \<le> x / 2 ^ 53" .
  have "x / 2 ^ 53 \<le> x" using pos by (simp add: field_simps)
  with err have "y \<le> x + x" by linarith
  also have "\<dots> < 2 ^ 1023 + 2 ^ 1023" using hi by linarith
  finally have small: "\<not> 2 ^ 1024 \<le> y" by simp
  have "round_double x =
      (if 2 ^ 1024 \<le> y then (if 0 < x then PosInf else NegInf) else Fin (sgn x * y))"
    using pos by (simp add: round_double_def Let_def e_def q_def n_def y_def)
  also have "\<dots> = Fin y" using small pos by (simp only: if_False sgn_pos mult_1)
  finally show ?thesis using err by blast
qed

subsection \<open>The grid height\<close>

lemma height_blocks_exact:
  assumes "0 < original_width" "0 \<le> original_height" "0 \<le> width_blocks"
    and "representable (of_int original_height / of_int original_width)"
    and "representable (of_int width_blocks)"
    and "representable (of_int width_blocks * (of_int original_height / of_int original_width))"
  shows "height_blocks width_blocks original_height original_width =
     Inr (width_blocks * original_height div original_width)"
proof -
  let ?r = "of_int width_blocks * (of_int original_height / of_int original_width) :: rat"
  have "0 \<le> ?r" using assms(1-3) by simp
  moreover have "\<lfloor>?r\<rfloor> = width_blocks * original_height div original_width"
    using floor_divide_of_int_eq [of "width_blocks * original_height" original_width, where ?'a = rat]
    by simp
  ultimately have i: "py_int (Fin ?r) = Inr (width_blocks * original_height div original_width)"
    by (simp add: py_int_def)
  have d: "py_truediv original_height original_width =
      Inr (Fin (of_int original_height / of_int original_width))"
    using assms(1) by (simp add: py_truediv_def round_double_exact [OF assms(4)])
  have f: "py_float width_blocks = Inr (Fin (of_int width_blocks))"
    by (simp add: py_float_def round_double_exact [OF assms(5)])
  have m: "float_mul (Fin (of_int width_blocks))
      (Fin (of_int original_height / of_int original_width)) = Fin ?r"
    by (simp only: float_mul.simps round_double_exact [OF assms(6)])
  show ?thesis
    unfolding height_blocks_def d f by (simp only: sum.case m i)
qed

lemma height_blocks_inexact:
  assumes W: "0 < W" "W < 2 ^ 22" and H: "0 < H" "H < 2 ^ 22"
    and w: "0 < w" "w \<le> 128" and nd: "\<not> W dvd w * H"
  shows "height_blocks w H W = Inr (w * H div W)"
proof -
  define r :: rat where "r = of_int H / of_int W"
  define t :: rat where "t = of_int w * r"
  have Wr: "(0::rat) < of_int W" "(of_int W :: rat) < 2 ^ 22" "(1::rat) \<le> of_int W"
    using W by (simp_all add: of_int_less_numeral_power_cancel_iff)
  have Hr: "(1::rat) \<le> of_int H" "(of_int H :: rat) < 2 ^ 22"
    using H by (simp_all add: of_int_less_numeral_power_cancel_iff)
  have wr: "(1::rat) \<le> of_int w" "(of_int w :: rat) \<le> 128"
    using w by simp_all
  have r_lo: "1 / 2 ^ 22 < r"
  proof -
    have "1 / 2 ^ 22 < 1 / (of_int W :: rat)" using Wr by (simp add: field_simps)
    also have "\<dots> \<le> r" unfolding r_def using Hr Wr by (simp add: divide_right_mono)
    finally show ?thesis .
  qed
  have r_hi: "r < 2 ^ 22"
  proof -
    have "r \<le> of_int H" unfolding r_def using Hr Wr by (simp add: field_simps)
    with Hr show ?thesis by simp
  qed
  have r_pos: "0 < r" using r_lo by (simp add: less_trans [OF _ r_lo])
  have tiny: "(2::rat) powi (- 1022) \<le> 1 / 2 ^ 23"
    by (simp add: power_int_minus field_simps)
  have "2 powi (- 1022) \<le> r" using tiny r_lo by simp
  moreover have "r < 2 ^ 1023"
  proof -
    have "(2::rat) ^ 22 \<le> 2 ^ 1023" by (intro power_increasing) auto
    with r_hi show ?thesis by simp
  qed
  ultimately obtain a where a: "round_double r = Fin a" "\<bar>a - r\<bar> \<le> r / 2 ^ 53"
    using round_double_rel by blast
  have "r / 2 ^ 53 \<le> r / 2" using r_pos by (simp add: field_simps)
  with a(2) have "\<bar>a - r\<bar> \<le> r / 2" by linarith
  then have a_lo: "r / 2 \<le> a" and a_hi: "a \<le> 2 * r" using r_pos by linarith+
  have div: "py_truediv H W = Inr (Fin a)"
    using W a(1) by (simp add: py_truediv_def r_def)
  have "representable (of_int w)"
    unfolding representable_def using w by (intro exI [of _ w] exI [of _ 0]) auto
  then have flt: "py_float w = Inr (Fin (of_int w))"
    by (simp add: py_float_def round_double_exact)
  have wa_lo: "1 / 2 ^ 23 \<le> of_int w * a"
  proof -
    have "1 / 2 ^ 23 \<le> r / 2" using r_lo by simp
    also have "\<dots> \<le> 1 * a" using a_lo by simp
    also have "\<dots> \<le> of_int w * a" using wr a_lo r_pos by (intro mult_right_mono) auto
    finally show ?thesis .
  qed
  have wa_t: "of_int w * a \<le> 2 * t"
    unfolding t_def using a_hi wr by (simp add: mult_left_mono)
  have t_hi: "t < 2 ^ 29"
  proof -
    have "t \<le> 128 * r" unfolding t_def using wr r_pos by (intro mult_right_mono) auto
    also have "\<dots> < 128 * 2 ^ 22" using r_hi by simp
    finally show ?thesis by simp
  qed
  have t_pos: "0 < t" unfolding t_def using wr r_pos by simp
  have "2 powi (- 1022) \<le> of_int w * a" using tiny wa_lo by simp
  moreover have "of_int w * a < 2 ^ 1023"
  proof -
    have "of_int w * a < 2 ^ 30" using wa_t t_hi by simp
    also have "(2::rat) ^ 30 \<le> 2 ^ 1023" by (intro power_increasing) auto
    finally show ?thesis .
  qed
  ultimately obtain p where p: "round_double (of_int w * a) = Fin p"
    "\<bar>p - of_int w * a\<bar> \<le> of_int w * a / 2 ^ 53"
    using round_double_rel by blast
  have mul: "float_mul (Fin (of_int w)) (Fin a) = Fin p" using p(1) by simp
  have "\<bar>of_int w * a - t\<bar> = of_int w * \<bar>a - r\<bar>"
    unfolding t_def using wr by (simp add: abs_mult right_diff_distrib [symmetric])
  also have "\<dots> \<le> of_int w * (r / 2 ^ 53)" using a(2) wr by (intro mult_left_mono) auto
  finally have e1: "\<bar>of_int w * a - t\<bar> \<le> t / 2 ^ 53" by (simp add: t_def)
  have e2: "\<bar>p - of_int w * a\<bar> \<le> 2 * t / 2 ^ 53"
    using p(2) wa_t by (simp add: field_simps)
  have "\<bar>p - t\<bar> \<le> \<bar>p - of_int w * a\<bar> + \<bar>of_int w * a - t\<bar>" by simp
  also have "\<dots> \<le> 3 * t / 2 ^ 53" using e1 e2 by simp
  also have "\<dots> < 3 * 2 ^ 29 / 2 ^ 53" using t_hi by (simp add: divide_strict_right_mono)
  also have "\<dots> < 1 / 2 ^ 22" by simp
  finally have err: "\<bar>p - t\<bar> < 1 / 2 ^ 22" .
  define n where "n = w * H div W"
  define m where "m = w * H mod W"
  have "m \<noteq> 0" using nd by (simp add: m_def dvd_eq_mod_eq_0)
  moreover have "0 \<le> m" "m < W" using W by (simp_all add: m_def)
  ultimately have m: "1 \<le> m" "m \<le> W - 1" by linarith+
  have "w * H = W * n + m" by (simp add: n_def m_def)
  then have "(of_int (w * H) :: rat) = of_int W * of_int n + of_int m"
    by (simp only: of_int_add of_int_mult)
  then have t: "t = of_int n + of_int m / of_int W"
    using Wr by (simp add: t_def r_def field_simps)
  define c :: rat where "c = 1 / 2 ^ 22"
  define g :: rat where "g = 1 / of_int W"
  define fr :: rat where "fr = of_int m / of_int W"
  have gap: "c < g" unfolding c_def g_def using Wr by (simp add: field_simps)
  have err': "\<bar>p - t\<bar> < c" using err by (simp add: c_def)
  have t': "t = of_int n + fr" by (simp add: t fr_def)
  have fr_lo: "g \<le> fr"
    unfolding g_def fr_def using m Wr by (simp add: divide_right_mono)
  have "fr \<le> (of_int W - 1) / of_int W"
    unfolding fr_def using m Wr by (intro divide_right_mono) auto
  also have "\<dots> = 1 - g" unfolding g_def using Wr by (simp add: field_simps)
  finally have fr_hi: "fr \<le> 1 - g" .
  have lower: "of_int n < p" using gap err' t' fr_lo by linarith
  have upper: "p < of_int n + 1" using gap err' t' fr_hi by linarith
  from lower upper have fl: "\<lfloor>p\<rfloor> = n" by (simp add: floor_unique)
  have "0 \<le> n" using W w H by (simp add: n_def pos_imp_zdiv_nonneg_iff)
  with lower have "0 \<le> p" by (simp add: order_trans [OF _ less_imp_le])
  with fl have "py_int (Fin p) = Inr n" by (simp add: py_int_def)
  then show ?thesis
    unfolding height_blocks_def div flt by (simp only: sum.case mul n_def)
qed

lemma height_blocks_whole_ratio: "height_blocks 100 29 100 = Inr 28"
  by code_simp

subsection \<open>The concrete inputs\<close>

lemma nearest_two_tone: "nearest_resize two_tone (2, 1) = Inr two_tone"
  by (simp add: nearest_resize_def two_tone_def)

lemma nearest_resize_keeps_solid: "keeps_solid nearest_resize"
  unfolding keeps_solid_def
proof (intro allI impI)
  fix img :: image and c :: color and g :: "int \<times> int"
  assume h: "0 < width img \<and> 0 < height img \<and> solid img c \<and> 0 < fst g \<and> 0 < snd g"
  let ?small = "\<lparr>width = fst g, height = snd g,
                pixels = (\<lambda>q. pixels img (fst q * width img div fst g,
                                         snd q * height img div snd g))\<rparr>"
  have "to_color (pixels img (x * width img div fst g, y * height img div snd g)) = c"
    if "0 \<le> x" "x < fst g" "0 \<le> y" "y < snd g" for x y
  proof -
    have "x * width img < width img * fst g" "y * height img < height img * snd g"
      using that h by (simp_all add: mult.commute)
    moreover have "0 \<le> x * width img" "0 \<le> y * height img" using that h by simp_all
    ultimately have "0 \<le> x * width img div fst g" "x * width img div fst g < width img"
      "0 \<le> y * height img div snd g" "y * height img div snd g < height img"
      using h cell_in(1,2) [of "fst g" "x * width img" "width img"]
        cell_in(1,2) [of "snd g" "y * height img" "height img"]
      by simp_all
    with h show ?thesis by (simp add: solid_pixels)
  qed
  then have "solid ?small c" by (simp add: solid_pixels)
  moreover have "nearest_resize img g = Inr ?small"
    using h by (simp add: nearest_resize_def not_less)
  ultimately show "\<exists>small. nearest_resize img g = Inr small \<and> width small = fst g \<and>
      height small = snd g \<and> solid small c"
    by simp
qed

lemma red_image_solid: "solid red_image (255, 0, 0)"
  by (simp add: solid_pixels red_image_def)

section \<open>The claims\<close>









text \<open>
  Claim C10. With the palette flag false the result of \<open>lego_pixelate\<close> is the
  same for both values of the accuracy flag, for all other inputs (errors included).
\<close>

theorem lego_pixelate_accuracy_unused:
  "lego_pixelate resize rgb_to_lab delta_e img pixel_size grid_size False True =
   lego_pixelate resize rgb_to_lab delta_e img pixel_size grid_size False False"
proof -
  have same: "cell_color rgb_to_lab delta_e False True = cell_color rgb_to_lab delta_e False False"
    by (simp add: fun_eq_iff cell_color_def)
  show ?thesis unfolding lego_pixelate_def same by (rule refl)
qed

text \<open>
  Claim C5. For a non-empty solid image of colour \<open>(255, 0, 0)\<close>, a 1 by 1 grid,
  brick size 10, the palette in use and fast matching, and a resampling filter that
  keeps solid images solid, \<open>lego_pixelate\<close> returns a 10 by 10 image that is solid
  \<open>(180, 0, 0)\<close>. That is the colour of the palette entry named \<open>Bright Red\<close>,
  and every other colour among the 44 palette entries is strictly farther from
  \<open>(255, 0, 0)\<close> in squared RGB distance.
\<close>

theorem red_scenario:
  assumes "keeps_solid resize" "0 < width img" "0 < height img" "solid img (255, 0, 0)"
  shows "\<exists>result. lego_pixelate resize rgb_to_lab delta_e img 10 (1, 1) True False = Inr result \<and>
     width result = 10 \<and> height result = 10 \<and> solid result (180, 0, 0) \<and>
     length LEGO_COLORS = 44 \<and>
     \<lparr>name = ''Bright Red'', rgb = (180, 0, 0)\<rparr> \<in> set LEGO_COLORS \<and>
     (\<forall>c\<in>set LEGO_COLORS. rgb c \<noteq> (180, 0, 0) \<longrightarrow>
        distance (255, 0, 0) (180, 0, 0) < distance (255, 0, 0) (rgb c))"
proof -
  from assms(1) [unfolded keeps_solid_def, rule_format, of img "(255, 0, 0)" "(1, 1)"] assms(2-4)
  obtain small where small: "resize img (1, 1) = Inr small"
    "width small = 1" "height small = 1" "solid small (255, 0, 0)"
    by auto
  let ?m = "mosaic rgb_to_lab delta_e True False small 10 (1, 1)"
  have res: "lego_pixelate resize rgb_to_lab delta_e img 10 (1, 1) True False = Inr ?m"
    using small(1-3) by (rule lego_pixelate_mosaic) simp_all
  have px: "to_color (pixels small (0, 0)) = (255, 0, 0)"
    using small by (simp add: solid_pixels)
  have "to_color (pixels ?m (x, y)) = (180, 0, 0)" if "0 \<le> x" "x < 10" "0 \<le> y" "y < 10" for x y
    using that px
    by (simp add: mosaic_def block_pixel_def cell_color_def closest_red clip8_def)
  then have "solid ?m (180, 0, 0)"
    unfolding solid_pixels by (simp add: mosaic_def)
  moreover have "length LEGO_COLORS = 44"
    by (simp add: LEGO_COLORS_def)
  moreover have "\<lparr>name = ''Bright Red'', rgb = (180, 0, 0)\<rparr> \<in> set LEGO_COLORS"
    by (simp add: LEGO_COLORS_def)
  moreover have "\<forall>c\<in>set LEGO_COLORS. rgb c \<noteq> (180, 0, 0) \<longrightarrow>
        distance (255, 0, 0) (180, 0, 0) < distance (255, 0, 0) (rgb c)"
    by (simp add: LEGO_COLORS_def)
  ultimately show ?thesis using res by (simp add: mosaic_def)
qed

text \<open>
  An instance: the 4 by 3 solid red image under nearest-neighbour resampling.
\<close>

theorem red_scenario_witness:
  "\<exists>result. lego_pixelate nearest_resize euclid_lab euclid_delta red_image 10 (1, 1) True False =
      Inr result \<and> width result = 10 \<and> height result = 10 \<and> solid result (180, 0, 0)"
  using red_scenario [OF nearest_resize_keeps_solid _ _ red_image_solid,
      of euclid_lab euclid_delta]
  by (auto simp: red_image_def)

text \<open>
  Claim C6. For every palette entry \<open>e\<close>, the fast matcher maps the RGB triple of
  \<open>e\<close> to itself. The accurate matcher does so too whenever the colour difference
  of that triple to itself is zero and its difference to every palette entry of another
  colour is positive (the distance-zero case of a colour difference).
\<close>

theorem matchers_exact_hit:
  assumes "e \<in> set LEGO_COLORS"
  shows "closest_lego_color (rgb e) = Inr (rgb e) \<and>
    (delta_e (rgb_to_lab (rgb e)) (rgb_to_lab (rgb e)) = Fin 0 \<and>
     (\<forall>c\<in>set LEGO_COLORS. rgb c \<noteq> rgb e \<longrightarrow>
        flt_lt (Fin 0) (delta_e (rgb_to_lab (rgb e)) (rgb_to_lab (rgb c)))) \<longrightarrow>
     closest_lego_color_lab rgb_to_lab delta_e (rgb e) = rgb e)"
proof (intro conjI impI)
  obtain e' :: palette_color where e': "closest_lego_color (rgb e) = Inr (rgb e')"
    "\<forall>c\<in>set LEGO_COLORS. distance (rgb e) (rgb e') \<le> distance (rgb e) (rgb c)"
    using closest_lego_color_first [of "rgb e"] by blast
  from e'(2) assms have "distance (rgb e) (rgb e') \<le> distance (rgb e) (rgb e)" by blast
  also have "distance (rgb e) (rgb e) = 0" by (simp add: distance_zero)
  finally have "distance (rgb e) (rgb e') = 0"
    using distance_nonneg [of "rgb e" "rgb e'"] by simp
  then have "rgb e' = rgb e" by (simp add: distance_zero)
  with e'(1) show "closest_lego_color (rgb e) = Inr (rgb e)" by simp
next
  let ?k = "\<lambda>c. delta_e (rgb_to_lab (rgb e)) (rgb_to_lab (rgb c))"
  assume h: "?k e = Fin 0 \<and> (\<forall>c\<in>set LEGO_COLORS. rgb c \<noteq> rgb e \<longrightarrow> flt_lt (Fin 0) (?k c))"
  have nonan: "\<forall>c\<in>set LEGO_COLORS. ?k c \<noteq> NaN"
  proof
    fix c assume "c \<in> set LEGO_COLORS"
    show "?k c \<noteq> NaN"
    proof (cases "rgb c = rgb e")
      case True
      with h show ?thesis by simp
    next
      case False
      with h \<open>c \<in> set LEGO_COLORS\<close> have "flt_lt (Fin 0) (?k c)" by blast
      then show ?thesis by auto
    qed
  qed
  from closest_lego_color_lab_first [where delta_e = delta_e and rgb_to_lab = rgb_to_lab
      and p = "rgb e", OF nonan]
  obtain b :: palette_color where b: "b \<in> set LEGO_COLORS"
    "closest_lego_color_lab rgb_to_lab delta_e (rgb e) = rgb b"
    "\<forall>c\<in>set LEGO_COLORS. flt_le (?k b) (?k c)"
    by blast
  from b(3) assms h have "\<not> flt_lt (Fin 0) (?k b)" by (auto simp: flt_le_def)
  with h b(1) have "rgb b = rgb e" by blast
  with b(2) show "closest_lego_color_lab rgb_to_lab delta_e (rgb e) = rgb e" by simp
qed

text \<open>
  An instance: both matchers map \<open>(180, 0, 0)\<close> to itself, the accurate one with
  the squared RGB distance as the colour difference.
\<close>

theorem matchers_exact_hit_witness:
  "closest_lego_color (180, 0, 0) = Inr (180, 0, 0) \<and>
   closest_lego_color_lab euclid_lab euclid_delta (180, 0, 0) = (180, 0, 0)"
proof -
  have m: "\<lparr>name = ''Bright Red'', rgb = (180, 0, 0)\<rparr> \<in> set LEGO_COLORS"
    by (simp add: LEGO_COLORS_def)
  have z: "euclid_delta (euclid_lab (180, 0, 0)) (euclid_lab (180, 0, 0)) = Fin 0"
    by (simp add: euclid_delta_def euclid_lab_def)
  have p: "\<forall>c\<in>set LEGO_COLORS. rgb c \<noteq> (180, 0, 0) \<longrightarrow>
      flt_lt (Fin 0) (euclid_delta (euclid_lab (180, 0, 0)) (euclid_lab (rgb c)))"
    by (simp add: LEGO_COLORS_def euclid_delta_def euclid_lab_def)
  from matchers_exact_hit [OF m, of euclid_delta euclid_lab] z p show ?thesis by simp
qed

text \<open>
  Claim C7. For every input triple the fast matcher returns the RGB of a palette entry
  whose squared RGB distance is least over the palette, and that entry is the first one
  in declaration order with this distance. Whenever no colour difference to a palette
  entry is NaN, the accurate matcher likewise returns the RGB of an entry of least
  colour difference, the first one in declaration order with this difference.
\<close>

theorem matchers_first_minimum:
  "(\<exists>e\<in>set LEGO_COLORS. closest_lego_color p = Inr (rgb e) \<and>
      (\<forall>c\<in>set LEGO_COLORS. distance p (rgb e) \<le> distance p (rgb c)) \<and>
      find (\<lambda>c. distance p (rgb c) = distance p (rgb e)) LEGO_COLORS = Some e) \<and>
   ((\<forall>c\<in>set LEGO_COLORS. delta_e (rgb_to_lab p) (rgb_to_lab (rgb c)) \<noteq> NaN) \<longrightarrow>
    (\<exists>e\<in>set LEGO_COLORS. closest_lego_color_lab rgb_to_lab delta_e p = rgb e \<and>
      (\<forall>c\<in>set LEGO_COLORS.
         flt_le (delta_e (rgb_to_lab p) (rgb_to_lab (rgb e)))
                (delta_e (rgb_to_lab p) (rgb_to_lab (rgb c)))) \<and>
      find (\<lambda>c. delta_e (rgb_to_lab p) (rgb_to_lab (rgb c)) =
                 delta_e (rgb_to_lab p) (rgb_to_lab (rgb e))) LEGO_COLORS = Some e))"
  using closest_lego_color_first [of p]
    closest_lego_color_lab_first [where delta_e = delta_e and rgb_to_lab = rgb_to_lab and p = p]
  by blast

text \<open>
  An instance at the input \<open>(255, 0, 0)\<close>.
\<close>

theorem matchers_first_minimum_witness:
  "(\<exists>e\<in>set LEGO_COLORS. closest_lego_color (255, 0, 0) = Inr (rgb e) \<and>
      find (\<lambda>c. distance (255, 0, 0) (rgb c) = distance (255, 0, 0) (rgb e)) LEGO_COLORS =
        Some e) \<and>
   (\<exists>e\<in>set LEGO_COLORS. closest_lego_color_lab euclid_lab euclid_delta (255, 0, 0) = rgb e \<and>
      find (\<lambda>c. euclid_delta (euclid_lab (255, 0, 0)) (euclid_lab (rgb c)) =
                 euclid_delta (euclid_lab (255, 0, 0)) (euclid_lab (rgb e))) LEGO_COLORS =
        Some e)"
proof -
  have "\<forall>c\<in>set LEGO_COLORS. euclid_delta (euclid_lab (255, 0, 0)) (euclid_lab (rgb c)) \<noteq> NaN"
    by (simp add: euclid_delta_def)
  with matchers_first_minimum [of "(255, 0, 0)" euclid_delta euclid_lab] show ?thesis
    by blast
qed

text \<open>
  Claim C4, as the code has it. \<open>lego_pixelate\<close> checks neither the grid size nor
  the brick size itself. When the resize call raises, the call ends with that error.
  When the resize call returns an image of the requested positive grid size, a brick
  size of zero gives the empty image of size 0 by 0, and a negative brick size ends
  with the ValueError of the image allocation.
\<close>

theorem lego_pixelate_unchecked:
  "(resize img g = Inl e \<longrightarrow>
      lego_pixelate resize rgb_to_lab delta_e img p g u a = Inl e) \<and>
   (resize img g = Inr small \<and> width small = fst g \<and> height small = snd g \<and>
      0 < fst g \<and> 0 < snd g \<longrightarrow>
      (p = 0 \<longrightarrow> lego_pixelate resize rgb_to_lab delta_e img p g u a =
         Inr \<lparr>width = 0, height = 0, pixels = (\<lambda>_. (0, 0, 0))\<rparr>) \<and>
      (p < 0 \<longrightarrow> lego_pixelate resize rgb_to_lab delta_e img p g u a = Inl ValueError))"
proof (intro conjI impI)
  assume "resize img g = Inl e"
  then show "lego_pixelate resize rgb_to_lab delta_e img p g u a = Inl e"
    by (simp add: lego_pixelate_def)
next
  assume h: "resize img g = Inr small \<and> width small = fst g \<and> height small = snd g \<and>
      0 < fst g \<and> 0 < snd g" and p: "p < 0"
  then have "fst g * p < 0" by (simp add: mult_pos_neg)
  with h show "lego_pixelate resize rgb_to_lab delta_e img p g u a = Inl ValueError"
    by (simp add: lego_pixelate_def image_new_def)
next
  assume h: "resize img g = Inr small \<and> width small = fst g \<and> height small = snd g \<and>
      0 < fst g \<and> 0 < snd g" and p: "p = 0"
  define r0 :: image where "r0 = \<lparr>width = 0, height = 0, pixels = (\<lambda>_. (0, 0, 0))\<rparr>"
  let ?cell = "\<lambda>y x r. (case getpixel small (x, y) of
                      Inl e \<Rightarrow> Inl e
                    | Inr orig_color \<Rightarrow>
                        (case cell_color rgb_to_lab delta_e u a orig_color of
                           Inl e \<Rightarrow> Inl e
                         | Inr color \<Rightarrow> fill_block 0 x y color r))"
  have cell: "?cell y x r = Inr (paintf {} undefined r)"
    if "x \<in> set (py_range (fst g))" "y \<in> set (py_range (snd g))" for x y and r :: image
  proof -
    have "getpixel small (x, y) = Inr (to_color (pixels small (x, y)))"
      using that h by (simp add: getpixel_def locate_def)
    moreover obtain c where "cell_color rgb_to_lab delta_e u a (to_color (pixels small (x, y))) = Inr c"
      using cell_color_total by blast
    moreover have "fill_block 0 x y c r = Inr r"
      by (simp add: fill_block_def py_range_def)
    ultimately show ?thesis by simp
  qed
  have row: "for_each (py_range (fst g)) (?cell y) r = Inr r"
    if "y \<in> set (py_range (snd g))" for y and r :: image
    using for_each_paintf [where xs = "py_range (fst g)" and body = "?cell y" and R = "\<lambda>_. {}"
        and G = undefined and s = r and W = "width r" and H = "height r"] cell that
    by simp
  have "for_each (py_range (snd g)) (\<lambda>y. for_each (py_range (fst g)) (?cell y)) r0 = Inr r0"
    using for_each_paintf [where xs = "py_range (snd g)"
        and body = "\<lambda>y. for_each (py_range (fst g)) (?cell y)" and R = "\<lambda>_. {}"
        and G = undefined and s = r0 and W = "width r0" and H = "height r0"] row
    by simp
  then show "lego_pixelate resize rgb_to_lab delta_e img p g u a =
         Inr \<lparr>width = 0, height = 0, pixels = (\<lambda>_. (0, 0, 0))\<rparr>"
    using h p by (simp add: lego_pixelate_def image_new_def r0_def)
qed

text \<open>
  Instances: a grid of width zero (the resampling filter raises), a brick size of
  zero and a negative brick size.
\<close>

theorem lego_pixelate_unchecked_witness:
  "lego_pixelate nearest_resize euclid_lab euclid_delta two_tone 5 (0, 1) True True =
     Inl ValueError \<and>
   lego_pixelate nearest_resize euclid_lab euclid_delta two_tone 0 (2, 1) True True =
     Inr \<lparr>width = 0, height = 0, pixels = (\<lambda>_. (0, 0, 0))\<rparr> \<and>
   lego_pixelate nearest_resize euclid_lab euclid_delta two_tone (- 1) (2, 1) True True =
     Inl ValueError"
proof -
  have e: "nearest_resize two_tone (0, 1) = Inl ValueError"
    by (simp add: nearest_resize_def)
  show ?thesis
    using lego_pixelate_unchecked [of nearest_resize two_tone "(0, 1)" ValueError
        euclid_lab euclid_delta 5 True True two_tone]
      lego_pixelate_unchecked [of nearest_resize two_tone "(2, 1)" ValueError
        euclid_lab euclid_delta 0 True True two_tone]
      lego_pixelate_unchecked [of nearest_resize two_tone "(2, 1)" ValueError
        euclid_lab euclid_delta "- 1" True True two_tone]
      e nearest_two_tone
    by (simp add: two_tone_def)
qed

text \<open>
  A brick size of zero is not rejected: the call returns the empty image.
\<close>

theorem lego_pixelate_zero_brick:
  "lego_pixelate nearest_resize euclid_lab euclid_delta red_image 0 (1, 1) True False =
     Inr \<lparr>width = 0, height = 0, pixels = (\<lambda>_. (0, 0, 0))\<rparr>"
  by (simp add: lego_pixelate_def nearest_resize_def red_image_def image_new_def py_range_def
      getpixel_def locate_def cell_color_def closest_red fill_block_def)

text \<open>
  Claim C9, as the code has it. The grid height is the float product
  \<open>width_blocks * (height / width)\<close> truncated toward zero. For a source of positive
  width and height below \<open>2 ^ 22\<close> and a grid width from 1 to 128, it is the floor
  of \<open>width_blocks * height / width\<close> whenever that ratio is not a whole number, and
  also whenever the quotient and the product are binary64 numbers (no float operation
  rounds).
\<close>

theorem height_blocks_truncates:
  assumes "0 < original_width" "original_width < 2 ^ 22"
    and "0 < original_height" "original_height < 2 ^ 22"
    and "0 < width_blocks" "width_blocks \<le> 128"
    and "\<not> original_width dvd width_blocks * original_height \<or>
      (representable (of_int original_height / of_int original_width) \<and>
       representable (of_int width_blocks * (of_int original_height / of_int original_width)))"
  shows "height_blocks width_blocks original_height original_width =
     Inr (width_blocks * original_height div original_width)"
proof (cases "original_width dvd width_blocks * original_height")
  case False
  with assms(1-6) show ?thesis by (intro height_blocks_inexact)
next
  case True
  have "representable (of_int width_blocks)"
    unfolding representable_def using assms(5,6)
    by (intro exI [of _ width_blocks] exI [of _ 0]) auto
  with True assms show ?thesis by (intro height_blocks_exact) auto
qed

text \<open>
  Instances: a source of 3 by 2 pixels and a grid width of 10 (a ratio that is not whole,
  with a quotient that is rounded), and a source of 4 by 3 pixels and a grid width of 48
  (a whole ratio with an exact quotient).
\<close>

theorem height_blocks_truncates_witness:
  "height_blocks 10 2 3 = Inr 6 \<and> height_blocks 48 3 4 = Inr 36"
proof -
  have a: "representable (of_int 3 / of_int 4)"
    unfolding representable_def by (intro exI [of _ 3] exI [of _ "- 2"]) (simp add: power_int_minus)
  have b: "representable (of_int 48 * (of_int 3 / of_int 4))"
    unfolding representable_def by (intro exI [of _ 36] exI [of _ 0]) simp
  show ?thesis
    using height_blocks_truncates [where original_width = 3 and original_height = 2
        and width_blocks = 10]
      height_blocks_truncates [where original_width = 4 and original_height = 3
        and width_blocks = 48] a b
    by simp
qed

text \<open>
  The height is not rounded to nearest: for a source of 8 by 7 pixels and a grid width
  of 10 the code gives 8, and rounding \<open>8.75\<close> gives 9.
\<close>

theorem height_blocks_not_rounded:
  "height_blocks 10 7 8 = Inr 8 \<and> spec_height 10 7 8 = 9"
  by code_simp

end
